theory Spec2Isabelle
  imports Main "HOL-Library.Sublist" "HOL-Library.Multiset"
begin

section \<open>Chunking strategies of app/chunking/strategies.py\<close>

text \<open>
  Modelling conventions.
  \<^item> A Python \<open>str\<close> is a \<open>string\<close>; every character is a code point below 256, and
    \<open>length\<close> is Python's \<open>len\<close>.
  \<^item> Offsets, sizes and indices are natural numbers; \<open>max_chunk_size\<close> and
    \<open>overlap_size\<close> are therefore non-negative. \<open>str.rfind\<close> returns an \<open>int\<close>, as it
    answers \<open>-1\<close> when nothing is found.
  \<^item> The two float comparisons \<open>last_space > start + max_chunk_size * 0.8\<close> and
    \<open>break_point - start > max_chunk_size * 0.5\<close> are written over the integers
    (\<open>5 * last_space > 5 * start + 4 * max_chunk_size\<close> and
    \<open>2 * (break_point - start) > max_chunk_size\<close>); the two agree for every size a
    double represents exactly.
  \<^item> A call of the LLM backend either raises or returns a response; the backend is a
    function of its arguments.
  \<^item> A \<open>while\<close> loop that may run forever is a partial function into \<open>option\<close>:
    \<open>None\<close> is "does not return".
\<close>

subsection \<open>Strings\<close>

definition py_isspace :: "char \<Rightarrow> bool" where
  \<comment> \<open>\<open>str.isspace\<close> on one character, and the regular-expression class \<open>\s\<close>.\<close>
  "py_isspace c \<longleftrightarrow>
     c \<in> set [CHR 0x09, CHR 0x0A, CHR 0x0B, CHR 0x0C, CHR 0x0D,
               CHR 0x1C, CHR 0x1D, CHR 0x1E, CHR 0x1F, CHR 0x20, CHR 0x85, CHR 0xA0]"

definition strip :: "string \<Rightarrow> string" where
  \<comment> \<open>\<open>str.strip()\<close>\<close>
  "strip s = rev (dropWhile py_isspace (rev (dropWhile py_isspace s)))"

definition slice :: "string \<Rightarrow> nat \<Rightarrow> nat \<Rightarrow> string" where
  \<comment> \<open>\<open>text[start:end]\<close> for non-negative bounds\<close>
  "slice text start end = take (end - start) (drop start text)"

definition rfind :: "char \<Rightarrow> string \<Rightarrow> nat \<Rightarrow> nat \<Rightarrow> int" where
  \<comment> \<open>\<open>text.rfind(c, start, end)\<close>: the highest index in \<open>[start, end)\<close> holding \<open>c\<close>, else \<open>-1\<close>\<close>
  "rfind c text start end =
     (case filter (\<lambda>i. text ! i = c) (rev [start..<min end (length text)]) of
        [] \<Rightarrow> - 1
      | i # _ \<Rightarrow> int i)"

definition ascii_lower :: "char \<Rightarrow> char" where
  "ascii_lower c =
     (let n = (of_char c :: nat) in if 65 \<le> n \<and> n \<le> 90 then char_of (n + 32) else c)"

fun matches_at :: "string \<Rightarrow> string \<Rightarrow> bool" where
  \<comment> \<open>a literal pattern matches at the head of the text, under \<open>re.IGNORECASE\<close>\<close>
  "matches_at [] text = True"
| "matches_at (p # ps) [] = False"
| "matches_at (p # ps) (c # cs) = (ascii_lower p = ascii_lower c \<and> matches_at ps cs)"

fun re_search :: "string list \<Rightarrow> string \<Rightarrow> bool" where
  \<comment> \<open>\<open>re.search\<close> of an alternation of literals: some alternative matches at some position\<close>
  "re_search alts [] = list_ex (\<lambda>a. matches_at a []) alts"
| "re_search alts (c # cs) = (list_ex (\<lambda>a. matches_at a (c # cs)) alts \<or> re_search alts cs)"

definition question_patterns :: "string list" where
  "question_patterns = [''?'', ''what'', ''how'', ''why'', ''when'', ''where'', ''who'']"

definition contains_question :: "string \<Rightarrow> bool" where
  \<comment> \<open>\<open>_contains_question\<close>, the same in both strategies\<close>
  "contains_question text = re_search question_patterns text"

subsection \<open>Data model\<close>

record document_section =
  title :: string
  level :: int
  tab_title :: "string option"
  tab_id :: "string option"
  content_len :: nat   \<comment> \<open>\<open>len(section.content)\<close>\<close>
  full_text :: string  \<comment> \<open>\<open>section.get_full_text()\<close>\<close>

record parsed_document =
  document_id :: string
  sections :: "document_section list"

record chunk_metadata =
  source_document_id :: string
  source_tab :: "string option"
  source_tab_id :: "string option"
  source_section :: string
  chunk_index :: nat
  start_position :: nat
  end_position :: nat
  overlap_before :: nat
  overlap_after :: nat
  heading_level :: int
  question_flag :: bool   \<comment> \<open>the field \<open>contains_question\<close>\<close>
  estimated_tokens :: nat
  total_chunks :: "nat option"

record chunk =
  content :: string
  metadata :: chunk_metadata
  summary :: "string option"

definition default_overlap :: nat where
  \<comment> \<open>Modelled from the spec: the default of \<open>ChunkMetadata.overlap_before\<close> and
      \<open>overlap_after\<close> (app/chunking/models.py is absent); a chunk that spans a whole
      section has \<open>overlap_before = overlap_after = 0\<close>.\<close>
  "default_overlap = 0"

definition default_tab_id :: "string option" where
  \<comment> \<open>Modelled from the spec: the default of \<open>ChunkMetadata.source_tab_id\<close>
      (app/chunking/models.py is absent); the field may be absent.\<close>
  "default_tab_id = None"

definition default_summary :: "string option" where
  \<comment> \<open>Modelled from the spec: the default of \<open>Chunk.summary\<close> (app/chunking/models.py is
      absent); the summary is absent unless summarization sets it.\<close>
  "default_summary = None"

record strategy =
  max_chunk_size :: nat
  overlap_size :: nat
  use_summaries :: bool   \<comment> \<open>read by the smart strategy only\<close>

subsection \<open>BasicChunkingStrategy\<close>

definition chunk_end :: "nat \<Rightarrow> string \<Rightarrow> nat \<Rightarrow> nat" where
  \<comment> \<open>the value of \<open>end\<close> in one turn of the loop of \<open>_split_text_with_overlap\<close>: the hard
      limit, moved back to the last space when that space lies beyond 80% of the window\<close>
  "chunk_end mx text start =
     (let end0 = min (start + mx) (length text);
          last_space = rfind CHR '' '' text start end0
      in if end0 < length text \<and> 5 * last_space > 5 * int start + 4 * int mx
         then nat last_space else end0)"

partial_function (option) split_loop ::
  "nat \<Rightarrow> nat \<Rightarrow> string \<Rightarrow> nat \<Rightarrow> string list \<Rightarrow> string list option" where
  "split_loop mx ov text start chunks =
     (if start < length text then
        (let end1 = chunk_end mx text start;
             chunk_text = strip (slice text start end1);
             chunks' = (if chunk_text \<noteq> [] then chunks @ [chunk_text] else chunks)
         in split_loop mx ov text (max (start + mx - ov) end1) chunks')
      else Some chunks)"

declare split_loop.simps [code]

definition split_text_with_overlap :: "strategy \<Rightarrow> string \<Rightarrow> string list option" where
  \<comment> \<open>\<open>_split_text_with_overlap\<close>\<close>
  "split_text_with_overlap cfg text =
     split_loop (max_chunk_size cfg) (overlap_size cfg) text 0 []"

definition whole_section_chunk ::
  "document_section \<Rightarrow> string \<Rightarrow> nat \<Rightarrow> string option \<Rightarrow> string option \<Rightarrow> chunk" where
  "whole_section_chunk sec doc_id start_chunk_index tab_name tabid =
     \<lparr>content = full_text sec,
      metadata = \<lparr>source_document_id = doc_id, source_tab = tab_name, source_tab_id = tabid,
                  source_section = title sec, chunk_index = start_chunk_index,
                  start_position = 0, end_position = length (full_text sec),
                  overlap_before = default_overlap, overlap_after = default_overlap,
                  heading_level = level sec,
                  question_flag = contains_question (full_text sec),
                  estimated_tokens = length (full_text sec) div 4,
                  total_chunks = None\<rparr>,
      summary = default_summary\<rparr>"

definition piece_chunk ::
  "strategy \<Rightarrow> document_section \<Rightarrow> string \<Rightarrow> nat \<Rightarrow> string option \<Rightarrow> string option \<Rightarrow> nat \<Rightarrow>
   nat \<times> string \<Rightarrow> chunk" where
  "piece_chunk cfg sec doc_id start_chunk_index tab_name tabid n ip =
     (case ip of (i, piece) \<Rightarrow>
     \<lparr>content = piece,
      metadata = \<lparr>source_document_id = doc_id, source_tab = tab_name, source_tab_id = tabid,
                  source_section = title sec, chunk_index = start_chunk_index + i,
                  start_position = 0, end_position = length piece,
                  overlap_before = (if i > 0 then overlap_size cfg else 0),
                  overlap_after = (if int i < int n - 1 then overlap_size cfg else 0),
                  heading_level = level sec,
                  question_flag = contains_question piece,
                  estimated_tokens = length piece div 4,
                  total_chunks = None\<rparr>,
      summary = default_summary\<rparr>)"

definition chunk_section ::
  "strategy \<Rightarrow> document_section \<Rightarrow> string \<Rightarrow> nat \<Rightarrow> string option \<Rightarrow> string option \<Rightarrow>
   chunk list option" where
  \<comment> \<open>\<open>BasicChunkingStrategy._chunk_section\<close>\<close>
  "chunk_section cfg sec doc_id start_chunk_index tab_name tabid =
     (if strip (full_text sec) = [] then Some []
      else if length (full_text sec) \<le> max_chunk_size cfg
      then Some [whole_section_chunk sec doc_id start_chunk_index tab_name tabid]
      else (case split_text_with_overlap cfg (full_text sec) of
              None \<Rightarrow> None
            | Some chunk_pieces \<Rightarrow>
                Some (map (piece_chunk cfg sec doc_id start_chunk_index tab_name tabid
                             (length chunk_pieces))
                        (enumerate 0 chunk_pieces))))"

fun basic_sections ::
  "strategy \<Rightarrow> string \<Rightarrow> chunk list \<Rightarrow> nat \<Rightarrow> document_section list \<Rightarrow> chunk list option" where
  \<comment> \<open>the loop over \<open>document.sections\<close>, with the state \<open>chunks\<close>, \<open>chunk_index\<close>\<close>
  "basic_sections cfg doc_id chunks idx [] = Some chunks"
| "basic_sections cfg doc_id chunks idx (sec # rest) =
     (case chunk_section cfg sec doc_id idx (tab_title sec) (tab_id sec) of
        None \<Rightarrow> None
      | Some section_chunks \<Rightarrow>
          basic_sections cfg doc_id (chunks @ section_chunks) (idx + length section_chunks) rest)"

definition set_total_chunks :: "chunk list \<Rightarrow> chunk list" where
  \<comment> \<open>\<open>for chunk in chunks: chunk.metadata.total_chunks = len(chunks)\<close>\<close>
  "set_total_chunks chunks =
     map (\<lambda>c. c\<lparr>metadata := (metadata c)\<lparr>total_chunks := Some (length chunks)\<rparr>\<rparr>) chunks"

definition basic_chunk_document :: "strategy \<Rightarrow> parsed_document \<Rightarrow> chunk list option" where
  \<comment> \<open>\<open>BasicChunkingStrategy.chunk_document\<close>\<close>
  "basic_chunk_document cfg doc =
     map_option set_total_chunks
       (basic_sections cfg (document_id doc) [] 0 (sections doc))"

subsection \<open>The LLM backend\<close>

datatype llm_result =
    Raises                            \<comment> \<open>the call raises an exception\<close>
  | Response bool "string option"     \<comment> \<open>\<open>response.success\<close>, \<open>response.content\<close>\<close>

record llm_provider =
  generate_response :: "string \<Rightarrow> llm_result"
  summarize :: "string \<Rightarrow> nat \<Rightarrow> llm_result"

definition truthy :: "string option \<Rightarrow> bool" where
  \<comment> \<open>Python's truth value of a \<open>str | None\<close>\<close>
  "truthy r = (case r of None \<Rightarrow> False | Some s \<Rightarrow> s \<noteq> [])"

subsection \<open>SmartChunkingStrategy: break points\<close>

abbreviation NL :: char where
  "NL \<equiv> CHR 0x0A"

definition is_digit :: "char \<Rightarrow> bool" where
  \<comment> \<open>the regular-expression class \<open>\d\<close>\<close>
  "is_digit c = (let n = (of_char c :: nat) in 48 \<le> n \<and> n \<le> 57)"

fun digit_runs_from :: "string \<Rightarrow> string \<Rightarrow> string list" where
  "digit_runs_from cur [] = (if cur = [] then [] else [cur])"
| "digit_runs_from cur (c # cs) =
     (if is_digit c then digit_runs_from (cur @ [c]) cs
      else (if cur = [] then [] else [cur]) @ digit_runs_from [] cs)"

definition digit_runs :: "string \<Rightarrow> string list" where
  \<comment> \<open>\<open>re.findall(r"\d+", s)\<close>: the maximal runs of digits, left to right\<close>
  "digit_runs s = digit_runs_from [] s"

definition int_of_digits :: "string \<Rightarrow> nat" where
  \<comment> \<open>\<open>int(match)\<close> on a run of decimal digits\<close>
  "int_of_digits ds = foldl (\<lambda>a c. 10 * a + (of_char c - 48)) 0 ds"

definition newline_match :: "string \<Rightarrow> nat option" where
  \<comment> \<open>after a first newline, the greedy \<open>\s*\n\<close>: the index of the last newline inside the
      leading run of whitespace, if there is one\<close>
  "newline_match cs =
     (case filter (\<lambda>k. cs ! k = NL) (rev [0..<length (takeWhile py_isspace cs)]) of
        [] \<Rightarrow> None
      | k # _ \<Rightarrow> Some k)"

fun paragraph_scan :: "nat \<Rightarrow> string \<Rightarrow> nat list" where
  \<comment> \<open>\<open>re.finditer(r"\n\s*\n", text)\<close>, the start of each match; \<open>pos\<close> is the offset of the
      text still to scan\<close>
  "paragraph_scan pos [] = []"
| "paragraph_scan pos (c # cs) =
     (if c = NL then
        (case newline_match cs of
           Some k \<Rightarrow> pos # paragraph_scan (pos + k + 2) (drop (k + 1) cs)
         | None \<Rightarrow> paragraph_scan (pos + 1) cs)
      else paragraph_scan (pos + 1) cs)"

definition find_paragraph_breaks :: "string \<Rightarrow> nat list" where
  \<comment> \<open>\<open>_find_paragraph_breaks\<close>\<close>
  "find_paragraph_breaks text = paragraph_scan 0 text"

fun str_nat :: "nat \<Rightarrow> string" where
  \<comment> \<open>\<open>str(n)\<close>\<close>
  "str_nat n =
     (if n < 10 then [char_of (48 + n)] else str_nat (n div 10) @ [char_of (48 + n mod 10)])"

declare str_nat.simps [simp del]

definition break_prompt :: "strategy \<Rightarrow> string \<Rightarrow> string" where
  "break_prompt cfg text =
     ''Analyze this text and identify good break points for chunking into semantic units.'' @ [NL] @
     ''            '' @ [NL] @
     ''Text length: '' @ str_nat (length text) @ '' characters'' @ [NL] @
     ''Target chunk size: '' @ str_nat (max_chunk_size cfg) @ '' characters'' @ [NL] @
     [NL] @
     ''Text:'' @ [NL] @
     take 2000 text @ (if length text > 2000 then ''...'' else []) @ [NL] @
     [NL] @
     ''Return positions (character indices) where natural breaks occur, such as:'' @ [NL] @
     ''- Topic transitions'' @ [NL] @
     ''- End of examples or lists  '' @ [NL] @
     ''- Paragraph boundaries'' @ [NL] @
     ''- Logical conclusion points'' @ [NL] @
     [NL] @
     ''Return only numbers separated by commas, e.g.: 150, 450, 750''"

definition breaks_of_response :: "string \<Rightarrow> llm_result \<Rightarrow> nat list" where
  \<comment> \<open>\<open>_find_semantic_breaks\<close> from the outcome of \<open>generate_response\<close> on: an exception is
      caught and, like an unsuccessful or empty response, leads to the paragraph breaks\<close>
  "breaks_of_response text r =
     (case r of
        Raises \<Rightarrow> find_paragraph_breaks text
      | Response ok c \<Rightarrow>
          if ok \<and> truthy c
          then sort (filter (\<lambda>pos. 0 < pos \<and> pos < length text)
                       (map int_of_digits (digit_runs (the c))))
          else find_paragraph_breaks text)"

definition find_semantic_breaks :: "strategy \<Rightarrow> llm_provider \<Rightarrow> string \<Rightarrow> nat list" where
  \<comment> \<open>\<open>_find_semantic_breaks\<close>\<close>
  "find_semantic_breaks cfg be text =
     breaks_of_response text (generate_response be (break_prompt cfg text))"

fun break_loop :: "strategy \<Rightarrow> string \<Rightarrow> nat \<Rightarrow> string list \<Rightarrow> nat list \<Rightarrow> nat \<times> string list" where
  \<comment> \<open>\<open>for break_point in break_points\<close>, with the state \<open>start\<close>, \<open>chunks\<close>\<close>
  "break_loop cfg text start chunks [] = (start, chunks)"
| "break_loop cfg text start chunks (break_point # rest) =
     (if 2 * (int break_point - int start) > int (max_chunk_size cfg) then
        (let chunk = strip (slice text start break_point);
             chunks' = (if chunk \<noteq> [] then chunks @ [chunk] else chunks)
         in break_loop cfg text (break_point - overlap_size cfg) chunks' rest)
      else break_loop cfg text start chunks rest)"

definition split_at_break_points :: "strategy \<Rightarrow> string \<Rightarrow> nat list \<Rightarrow> string list option" where
  \<comment> \<open>\<open>_split_at_break_points\<close>\<close>
  "split_at_break_points cfg text break_points =
     (if break_points = [] then split_text_with_overlap cfg text
      else (case break_loop cfg text 0 [] break_points of
              (start, chunks) \<Rightarrow>
                Some (if start < length text \<and> strip (drop start text) \<noteq> []
                      then chunks @ [strip (drop start text)] else chunks)))"

subsection \<open>SmartChunkingStrategy: sections, summaries, documents\<close>

definition semantic_chunk ::
  "document_section \<Rightarrow> string \<Rightarrow> nat \<Rightarrow> string option \<Rightarrow> nat \<times> string \<Rightarrow> chunk" where
  \<comment> \<open>the chunk built in the loop of \<open>_chunk_section_semantically\<close>; \<open>source_tab_id\<close>,
      \<open>overlap_before\<close> and \<open>overlap_after\<close> are not passed and keep their defaults\<close>
  "semantic_chunk sec doc_id start_chunk_index tab_name ip =
     (case ip of (i, chunk_text) \<Rightarrow>
     \<lparr>content = strip chunk_text,
      metadata = \<lparr>source_document_id = doc_id, source_tab = tab_name,
                  source_tab_id = default_tab_id,
                  source_section = title sec, chunk_index = start_chunk_index + i,
                  start_position = 0, end_position = length chunk_text,
                  overlap_before = default_overlap, overlap_after = default_overlap,
                  heading_level = level sec,
                  question_flag = contains_question chunk_text,
                  estimated_tokens = length chunk_text div 4,
                  total_chunks = None\<rparr>,
      summary = default_summary\<rparr>)"

definition chunk_section_semantically ::
  "strategy \<Rightarrow> llm_provider \<Rightarrow> document_section \<Rightarrow> string \<Rightarrow> nat \<Rightarrow> string option \<Rightarrow>
   string option \<Rightarrow> chunk list option" where
  \<comment> \<open>\<open>_chunk_section_semantically\<close>\<close>
  "chunk_section_semantically cfg be sec doc_id start_chunk_index tab_name tabid =
     (if strip (full_text sec) = [] then Some []
      else if length (full_text sec) \<le> max_chunk_size cfg
      then chunk_section cfg sec doc_id start_chunk_index tab_name tabid
      else (case split_at_break_points cfg (full_text sec)
                   (find_semantic_breaks cfg be (full_text sec)) of
              None \<Rightarrow> None
            | Some chunk_texts \<Rightarrow>
                Some (map (semantic_chunk sec doc_id start_chunk_index tab_name)
                        (enumerate 0 chunk_texts))))"

definition py_range :: "nat \<Rightarrow> nat \<Rightarrow> nat list" where
  \<comment> \<open>\<open>range(0, n, step)\<close>\<close>
  "py_range n step = map (\<lambda>k. k * step) [0..<(n + step - 1) div step]"

type_synonym completion_order = "nat \<Rightarrow> chunk list list \<Rightarrow> chunk list list"
  \<comment> \<open>for each batch number, the order in which \<open>asyncio.as_completed\<close> hands over the
      results of the batch's tasks\<close>

definition valid_order :: "completion_order \<Rightarrow> bool" where
  \<comment> \<open>every task's result is handed over exactly once\<close>
  "valid_order order \<longleftrightarrow> (\<forall>b results. mset (order b results) = mset results)"

definition submission_order :: completion_order where
  "submission_order b results = results"

definition section_tasks ::
  "strategy \<Rightarrow> llm_provider \<Rightarrow> parsed_document \<Rightarrow> nat \<Rightarrow> chunk list option list" where
  \<comment> \<open>the tasks of the batch that starts at section \<open>i\<close>, each with its estimated index\<close>
  "section_tasks cfg be doc i =
     map (\<lambda>(j, sec).
            chunk_section_semantically cfg be sec (document_id doc)
              (sum_list (map content_len (take (i + j) (sections doc))) div 1000)
              (tab_title sec) (tab_id sec))
       (enumerate 0 (take 3 (drop i (sections doc))))"

fun smart_batches ::
  "strategy \<Rightarrow> llm_provider \<Rightarrow> completion_order \<Rightarrow> parsed_document \<Rightarrow> chunk list \<Rightarrow>
   nat list \<Rightarrow> chunk list option" where
  \<comment> \<open>\<open>for i in range(0, len(document.sections), batch_size)\<close>, with the state \<open>all_chunks\<close>\<close>
  "smart_batches cfg be order doc all_chunks [] = Some all_chunks"
| "smart_batches cfg be order doc all_chunks (i # rest) =
     (case those (section_tasks cfg be doc i) of
        None \<Rightarrow> None
      | Some results \<Rightarrow>
          smart_batches cfg be order doc
            (all_chunks @ concat (order (i div 3 + 1) results)) rest)"

definition generate_summary :: "llm_provider \<Rightarrow> string \<Rightarrow> string option" where
  \<comment> \<open>\<open>_generate_summary\<close>; the prompt it builds is not passed to the backend\<close>
  "generate_summary be text =
     (case summarize be text 100 of
        Raises \<Rightarrow> None
      | Response ok c \<Rightarrow> if ok \<and> truthy c then Some (strip (the c)) else None)"

definition summary_tasks :: "llm_provider \<Rightarrow> chunk list \<Rightarrow> string option list" where
  \<comment> \<open>the result of each summary task; the placeholder \<open>asyncio.sleep(0)\<close> gives \<open>None\<close>\<close>
  "summary_tasks be all_chunks =
     map (\<lambda>c. if length (content c) > 200 then generate_summary be (content c) else None)
       all_chunks"

fun assign_summaries :: "nat \<Rightarrow> string option list \<Rightarrow> chunk list \<Rightarrow> chunk list" where
  \<comment> \<open>\<open>for j, result in enumerate(batch_summaries)\<close>; the first argument is \<open>i + j\<close>\<close>
  "assign_summaries chunk_idx [] all_chunks = all_chunks"
| "assign_summaries chunk_idx (result # rest) all_chunks =
     assign_summaries (chunk_idx + 1) rest
       (if chunk_idx < length all_chunks \<and> truthy result
        then all_chunks[chunk_idx := (all_chunks ! chunk_idx)\<lparr>summary := result\<rparr>]
        else all_chunks)"

fun summary_batches :: "string option list \<Rightarrow> chunk list \<Rightarrow> nat list \<Rightarrow> chunk list" where
  \<comment> \<open>\<open>for i in range(0, len(summary_tasks), summary_batch_size)\<close>\<close>
  "summary_batches tasks all_chunks [] = all_chunks"
| "summary_batches tasks all_chunks (i # rest) =
     summary_batches tasks (assign_summaries i (take 5 (drop i tasks)) all_chunks) rest"

definition add_summaries :: "llm_provider \<Rightarrow> chunk list \<Rightarrow> chunk list" where
  \<comment> \<open>the body of \<open>if self.use_summaries\<close>\<close>
  "add_summaries be all_chunks =
     summary_batches (summary_tasks be all_chunks) all_chunks
       (py_range (length (summary_tasks be all_chunks)) 5)"

definition smart_chunk_document ::
  "strategy \<Rightarrow> llm_provider \<Rightarrow> completion_order \<Rightarrow> parsed_document \<Rightarrow> chunk list option" where
  \<comment> \<open>\<open>SmartChunkingStrategy.chunk_document\<close>. Both backend calls sit inside handlers of
      their own (\<open>_find_semantic_breaks\<close>, \<open>_generate_summary\<close>), so no exception of the
      backend reaches the handler around the whole body.\<close>
  "smart_chunk_document cfg be order doc =
     (case smart_batches cfg be order doc [] (py_range (length (sections doc)) 3) of
        None \<Rightarrow> None
      | Some all_chunks \<Rightarrow>
          Some (set_total_chunks
                  (if use_summaries cfg then add_summaries be all_chunks else all_chunks)))"

subsection \<open>Definitions that follow the specification's words\<close>

definition is_word_char :: "char \<Rightarrow> bool" where
  "is_word_char c =
     (let n = (of_char c :: nat)
      in (48 \<le> n \<and> n \<le> 57) \<or> (65 \<le> n \<and> n \<le> 90) \<or> (97 \<le> n \<and> n \<le> 122) \<or> n = 95)"

fun words_from :: "string \<Rightarrow> string \<Rightarrow> string list" where
  \<comment> \<open>the maximal runs of word characters, left to right\<close>
  "words_from cur [] = (if cur = [] then [] else [cur])"
| "words_from cur (c # cs) =
     (if is_word_char c then words_from (cur @ [c]) cs
      else (if cur = [] then [] else [cur]) @ words_from [] cs)"

definition spec_contains_question :: "string \<Rightarrow> bool" where
  \<comment> \<open>the specification's reading of \<open>contains_question\<close>: a question mark, or one of the
      six keywords as a whole word, in any case\<close>
  "spec_contains_question text =
     (CHR ''?'' \<in> set text \<or>
      list_ex (\<lambda>w. w \<in> set [''what'', ''how'', ''why'', ''when'', ''where'', ''who''])
        (words_from [] (map ascii_lower text)))"



subsection \<open>Auxiliary predicates and example inputs\<close>

definition good_piece :: "nat \<Rightarrow> string \<Rightarrow> string \<Rightarrow> bool" where
  "good_piece mx text p \<longleftrightarrow> p \<noteq> [] \<and> length p \<le> mx \<and> strip p = p \<and> sublist p text"

definition example_strategy :: strategy where
  "example_strategy = \<lparr>max_chunk_size = 10, overlap_size = 2, use_summaries = True\<rparr>"

definition example_section :: "string \<Rightarrow> document_section" where
  "example_section t =
     \<lparr>title = ''Intro'', level = 1, tab_title = Some ''Tab'', tab_id = Some ''t.0'',
      content_len = length t, full_text = t\<rparr>"

definition example_document :: "string list \<Rightarrow> parsed_document" where
  "example_document ts = \<lparr>document_id = ''doc'', sections = map example_section ts\<rparr>"

definition raising_backend :: llm_provider where
  "raising_backend = \<lparr>generate_response = (\<lambda>prompt. Raises), summarize = (\<lambda>t n. Raises)\<rparr>"

section \<open>Properties\<close>

subsection \<open>Question detection\<close>

lemma matches_at_prefix:
  "matches_at p t \<longleftrightarrow> prefix (map ascii_lower p) (map ascii_lower t)"
  by (induction p t rule: matches_at.induct) simp_all

lemma re_search_sublist:
  "re_search alts t \<longleftrightarrow> (\<exists>a\<in>set alts. sublist (map ascii_lower a) (map ascii_lower t))"
proof (induction t)
  case Nil
  show ?case by (simp add: list_ex_iff matches_at_prefix)
next
  case (Cons c cs)
  show ?case
    by (simp add: Cons.IH list_ex_iff matches_at_prefix sublist_Cons_right del: matches_at.simps)
      blast
qed

lemma ascii_lower_question: "ascii_lower c = CHR ''?'' \<longleftrightarrow> c = CHR ''?''"
proof (cases "65 \<le> (of_char c :: nat) \<and> (of_char c :: nat) \<le> 90")
  case True
  have "char_of (of_char c + 32 :: nat) \<noteq> CHR ''?''"
  proof
    assume "char_of (of_char c + 32 :: nat) = CHR ''?''"
    then have "(of_char (char_of (of_char c + 32 :: nat)) :: nat) = of_char CHR ''?''"
      by simp
    with True show False by (simp add: of_char_of)
  qed
  moreover from True have "c \<noteq> CHR ''?''" by auto
  ultimately show ?thesis using True by (simp add: ascii_lower_def Let_def)
next
  case False
  then show ?thesis by (auto simp add: ascii_lower_def Let_def)
qed

lemma sublist_single: "sublist [x] ys \<longleftrightarrow> x \<in> set ys"
proof
  assume "sublist [x] ys"
  then obtain ps ss where "ys = ps @ [x] @ ss" unfolding sublist_def by blast
  then show "x \<in> set ys" by simp
next
  assume "x \<in> set ys"
  then obtain ps ss where "ys = ps @ x # ss" by (auto simp: in_set_conv_decomp)
  then have "ys = ps @ [x] @ ss" by simp
  then show "sublist [x] ys" unfolding sublist_def by blast
qed

lemma question_mark_lower:
  "sublist ''?'' (map ascii_lower text) \<longleftrightarrow> CHR ''?'' \<in> set text"
proof -
  have "CHR ''?'' \<in> set (map ascii_lower text) \<longleftrightarrow> (\<exists>c\<in>set text. ascii_lower c = CHR ''?'')"
    by (simp add: image_iff eq_commute)
  also have "\<dots> \<longleftrightarrow> CHR ''?'' \<in> set text"
    by (simp add: ascii_lower_question)
  finally show ?thesis by (simp only: sublist_single)
qed

lemma lower_patterns:
  "map ascii_lower ''?'' = ''?''" "map ascii_lower ''what'' = ''what''"
  "map ascii_lower ''how'' = ''how''" "map ascii_lower ''why'' = ''why''"
  "map ascii_lower ''when'' = ''when''" "map ascii_lower ''where'' = ''where''"
  "map ascii_lower ''who'' = ''who''"
  by (simp_all add: ascii_lower_def)

text \<open>
  C5, as the code has it: \<open>contains_question\<close> is true exactly when the text holds a
  question mark or holds one of what, how, why, when, where, who as a substring, in any
  case; the keyword need not be a whole word.
\<close>

theorem contains_question_substring:
  "contains_question text \<longleftrightarrow>
     CHR ''?'' \<in> set text \<or>
     sublist ''what'' (map ascii_lower text) \<or> sublist ''how'' (map ascii_lower text) \<or>
     sublist ''why'' (map ascii_lower text) \<or> sublist ''when'' (map ascii_lower text) \<or>
     sublist ''where'' (map ascii_lower text) \<or> sublist ''who'' (map ascii_lower text)"
proof -
  have "contains_question text \<longleftrightarrow>
    (\<exists>a\<in>set question_patterns. sublist (map ascii_lower a) (map ascii_lower text))"
    by (simp only: contains_question_def re_search_sublist)
  also have "\<dots> \<longleftrightarrow>
     sublist (map ascii_lower ''?'') (map ascii_lower text) \<or>
     sublist (map ascii_lower ''what'') (map ascii_lower text) \<or>
     sublist (map ascii_lower ''how'') (map ascii_lower text) \<or>
     sublist (map ascii_lower ''why'') (map ascii_lower text) \<or>
     sublist (map ascii_lower ''when'') (map ascii_lower text) \<or>
     sublist (map ascii_lower ''where'') (map ascii_lower text) \<or>
     sublist (map ascii_lower ''who'') (map ascii_lower text)"
    unfolding question_patterns_def by (simp only: list.set bex_simps ball_simps Bex_def insert_iff empty_iff) blast
  finally show ?thesis
    by (simp only: lower_patterns question_mark_lower)
qed
text \<open>
  C5, as the specification states it, fails: the text "somewhat" has no question mark and
  no keyword as a whole word, and \<open>contains_question\<close> is true of it.
\<close>

theorem contains_question_somewhat:
  "contains_question ''somewhat'' \<and> CHR ''?'' \<notin> set ''somewhat'' \<and>
   \<not> spec_contains_question ''somewhat''"
  by code_simp

subsection \<open>Strings and the size-based splitter\<close>

lemma rfind_cases:
  "rfind c text s e = - 1 \<or> (0 \<le> rfind c text s e \<and> s \<le> nat (rfind c text s e) \<and> nat (rfind c text s e) < min e (length text))"
proof (cases "filter (\<lambda>i. text ! i = c) (rev [s..<min e (length text)])")
  case Nil
  then show ?thesis by (simp add: rfind_def)
next
  case (Cons i rest)
  then have "i \<in> set (filter (\<lambda>i. text ! i = c) (rev [s..<min e (length text)]))" by simp
  then have "s \<le> i \<and> i < min e (length text)" by auto
  with Cons show ?thesis by (simp add: rfind_def)
qed

lemma dropWhile_hd: "dropWhile P xs \<noteq> [] \<Longrightarrow> \<not> P (hd (dropWhile P xs))"
  by (induction xs) auto

lemma strip_sublist: "sublist (strip s) s"
proof -
  have "sublist (rev (dropWhile py_isspace (rev (dropWhile py_isspace s)))) (dropWhile py_isspace s)"
    by (simp add: sublist_rev_left)
  then show ?thesis unfolding strip_def using sublist_dropWhile sublist_order.order_trans by blast
qed

lemma strip_length: "length (strip s) \<le> length s"
proof -
  have "length (dropWhile py_isspace (rev (dropWhile py_isspace s))) \<le> length (rev (dropWhile py_isspace s))"
    by (rule length_dropWhile_le)
  also have "\<dots> \<le> length s" by (simp add: length_dropWhile_le)
  finally show ?thesis by (simp add: strip_def)
qed

lemma strip_idem: "strip (strip s) = strip s"
proof -
  define t where "t = dropWhile py_isspace s"
  define u where "u = dropWhile py_isspace (rev t)"
  have su: "strip s = rev u" by (simp add: strip_def t_def u_def)
  have "dropWhile py_isspace (rev u) = rev u"
  proof (cases "u = []")
    case True then show ?thesis by simp
  next
    case False
    have "suffix u (rev t)" unfolding u_def by (rule suffix_dropWhile)
    then obtain zs where z: "rev t = zs @ u" by (auto simp: suffix_def)
    with False have "last (rev t) = last u" by simp
    moreover from z False have "t \<noteq> []" by auto
    ultimately have "hd t = last u" by (simp add: last_rev)
    moreover have "\<not> py_isspace (hd t)" using \<open>t \<noteq> []\<close> unfolding t_def by (rule dropWhile_hd)
    ultimately have "\<not> py_isspace (hd (rev u))" using False by (simp add: hd_rev)
    with False show ?thesis by (cases "rev u") auto
  qed
  moreover have "dropWhile py_isspace u = u" unfolding u_def by (rule dropWhile_idem)
  ultimately show ?thesis unfolding su by (simp add: strip_def)
qed

lemma split_loop_step:
  "start < length text \<Longrightarrow>
   split_loop mx ov text start chunks =
   split_loop mx ov text (max (start + mx - ov) (chunk_end mx text start))
     (if strip (slice text start (chunk_end mx text start)) \<noteq> []
      then chunks @ [strip (slice text start (chunk_end mx text start))] else chunks)"
  by (subst split_loop.simps) (simp add: Let_def)

lemma split_loop_done: "\<not> start < length text \<Longrightarrow> split_loop mx ov text start chunks = Some chunks"
  by (subst split_loop.simps) simp

lemma chunk_end_upper:
  "chunk_end mx text start \<le> start + mx \<and> chunk_end mx text start \<le> length text"
  using rfind_cases [of "CHR '' ''" "text" start "min (start + mx) (length text)"]
  by (auto simp: chunk_end_def Let_def)

lemma chunk_end_lower:
  "0 < mx \<Longrightarrow> start < length text \<Longrightarrow> start < chunk_end mx text start"
  using rfind_cases [of "CHR '' ''" "text" start "min (start + mx) (length text)"]
  by (auto simp: chunk_end_def Let_def)

lemma chunk_end_zero: "chunk_end 0 text start = min start (length text)"
  using rfind_cases [of "CHR '' ''" "text" start "min start (length text)"]
  by (auto simp: chunk_end_def Let_def)

lemma slice_sublist: "sublist (slice text a b) text"
  unfolding slice_def using sublist_take sublist_drop sublist_order.order_trans by blast

lemma window_piece_good:
  assumes "strip (slice text start (chunk_end mx text start)) \<noteq> []"
  shows "good_piece mx text (strip (slice text start (chunk_end mx text start)))"
proof -
  let ?w = "slice text start (chunk_end mx text start)"
  have "length ?w \<le> mx" using chunk_end_upper [of mx "text" start] by (auto simp: slice_def)
  then have "length (strip ?w) \<le> mx" using strip_length [of ?w] by simp
  moreover have "sublist (strip ?w) text"
    using strip_sublist [of ?w] slice_sublist [of "text" start "chunk_end mx text start"]
      sublist_order.order_trans by blast
  ultimately show ?thesis using assms by (simp add: good_piece_def strip_idem)
qed

lemma split_loop_pieces:
  assumes "0 < mx"
  shows "\<exists>ps. split_loop mx ov text start chunks = Some (chunks @ ps) \<and>
              list_all (good_piece mx text) ps"
proof (induction "length text - start" arbitrary: start chunks rule: less_induct)
  case less
  show ?case
  proof (cases "start < length text")
    case False
    then have "split_loop mx ov text start chunks = Some (chunks @ [])"
      by (simp add: split_loop_done)
    then show ?thesis by (intro exI [of _ "[]"]) simp
  next
    case True
    let ?e = "chunk_end mx text start"
    let ?s = "max (start + mx - ov) ?e"
    let ?p = "strip (slice text start ?e)"
    let ?c = "if ?p \<noteq> [] then chunks @ [?p] else chunks"
    have "start < ?s" using chunk_end_lower [OF assms True] by simp
    then have "length text - ?s < length text - start" using True by simp
    from less [OF this, of ?c]
    obtain ps where ps: "split_loop mx ov text ?s ?c = Some (?c @ ps)"
      "list_all (good_piece mx text) ps" by blast
    have step: "split_loop mx ov text start chunks = Some (?c @ ps)"
      using split_loop_step [OF True, of mx ov chunks] ps(1) by simp
    show ?thesis
    proof (cases "?p = []")
      case True
      with step ps(2) show ?thesis by auto
    next
      case False
      then have "good_piece mx text ?p" by (rule window_piece_good)
      with False step ps(2) show ?thesis by (intro exI [of _ "?p # ps"]) simp
    qed
  qed
qed

lemma split_loop_diverges_aux:
  assumes "split_loop mx ov t start chunks = Some y"
  shows "mx = 0 \<longrightarrow> \<not> start < length t"
proof (rule split_loop.raw_induct
    [where P = "\<lambda>mx ov t start chunks y. mx = 0 \<longrightarrow> \<not> start < length t", OF _ assms])
  fix f :: "nat \<Rightarrow> nat \<Rightarrow> string \<Rightarrow> nat \<Rightarrow> string list \<Rightarrow> string list option"
  fix mx ov t start chunks y
  assume IH: "\<And>a b c d e r. f a b c d e = Some r \<Longrightarrow> a = 0 \<longrightarrow> \<not> d < length c"
  assume body: "(if start < length t
          then let end1 = chunk_end mx t start;
                   chunk_text = strip (slice t start end1);
                   chunks' = (if chunk_text \<noteq> [] then chunks @ [chunk_text] else chunks)
               in f mx ov t (max (start + mx - ov) end1) chunks'
          else Some chunks) = Some y"
  show "mx = 0 \<longrightarrow> \<not> start < length t"
  proof (intro impI notI)
    assume mx: "mx = 0" and lt: "start < length t"
    have e: "chunk_end 0 t start = start" using lt by (simp add: chunk_end_zero)
    from body lt mx
    have "f 0 ov t (max (start + 0 - ov) (chunk_end 0 t start))
            (if strip (slice t start (chunk_end 0 t start)) \<noteq> []
             then chunks @ [strip (slice t start (chunk_end 0 t start))] else chunks) = Some y"
      by (simp add: Let_def)
    then have "f 0 ov t start
            (if strip (slice t start start) \<noteq> []
             then chunks @ [strip (slice t start start)] else chunks) = Some y"
      unfolding e by (simp add: max_def)
    from IH [OF this] lt show False by simp
  qed
qed

lemma split_loop_diverges: "start < length text \<Longrightarrow> split_loop 0 ov text start chunks = None"
  using split_loop_diverges_aux [of 0 ov "text" start chunks] by (cases "split_loop 0 ov text start chunks") auto

lemma split_text_pieces:
  assumes "0 < max_chunk_size cfg"
  shows "\<exists>ps. split_text_with_overlap cfg t = Some ps \<and>
              list_all (good_piece (max_chunk_size cfg) t) ps"
  using split_loop_pieces [OF assms, of "overlap_size cfg" t 0 "[]"]
  by (simp add: split_text_with_overlap_def)

lemma content_piece_chunk: "content (piece_chunk cfg sec d i tn ti n ip) = snd ip"
  by (cases ip) (simp add: piece_chunk_def)

lemma index_piece_chunk: "chunk_index (metadata (piece_chunk cfg sec d i tn ti n ip)) = i + fst ip"
  by (cases ip) (simp add: piece_chunk_def)

lemma list_all_content:
  "list_all (\<lambda>c. P (content c)) cs \<longleftrightarrow> list_all P (map content cs)"
  by (induction cs) simp_all

lemma good_piece_length: "list_all (good_piece mx t) ps \<Longrightarrow> list_all (\<lambda>p. length p \<le> mx) ps"
  by (induction ps) (simp_all add: good_piece_def)

lemma piece_chunks_content:
  "map content (map (piece_chunk cfg sec d i tn ti n) (enumerate k ps)) = ps"
  by (induction ps arbitrary: k) (simp_all add: content_piece_chunk)

lemma piece_chunks_index:
  "map (\<lambda>c. chunk_index (metadata c)) (map (piece_chunk cfg sec d i tn ti n) (enumerate k ps)) =
   [i + k..<i + k + length ps]"
proof (induction ps arbitrary: k)
  case Nil
  show ?case by simp
next
  case (Cons p ps)
  have "[i + k..<i + k + length (p # ps)] = (i + k) # [i + Suc k..<i + Suc k + length ps]"
    using upt_conv_Cons [of "i + k" "i + k + length (p # ps)"] by simp
  then show ?case using Cons [of "Suc k"] by (simp add: index_piece_chunk)
qed

lemma chunk_section_props:
  assumes "0 < max_chunk_size cfg"
  shows "\<exists>cs. chunk_section cfg sec d i tn ti = Some cs \<and>
              list_all (\<lambda>c. length (content c) \<le> max_chunk_size cfg) cs \<and>
              map (\<lambda>c. chunk_index (metadata c)) cs = [i..<i + length cs]"
proof -
  consider (blank) "strip (full_text sec) = []"
    | (small) "strip (full_text sec) \<noteq> []" "length (full_text sec) \<le> max_chunk_size cfg"
    | (large) "strip (full_text sec) \<noteq> []" "\<not> length (full_text sec) \<le> max_chunk_size cfg"
    by blast
  then show ?thesis
  proof cases
    case blank
    then show ?thesis by (simp add: chunk_section_def)
  next
    case small
    then show ?thesis by (simp add: chunk_section_def whole_section_chunk_def)
  next
    case large
    from split_text_pieces [OF assms, of "full_text sec"]
    obtain ps where ps: "split_text_with_overlap cfg (full_text sec) = Some ps"
      "list_all (good_piece (max_chunk_size cfg) (full_text sec)) ps" by blast
    let ?cs = "map (piece_chunk cfg sec d i tn ti (length ps)) (enumerate 0 ps)"
    have cs: "chunk_section cfg sec d i tn ti = Some ?cs"
      using large ps(1) by (simp add: chunk_section_def)
    have "map content ?cs = ps" by (rule piece_chunks_content)
    then have "list_all (\<lambda>c. length (content c) \<le> max_chunk_size cfg) ?cs"
      using good_piece_length [OF ps(2)]
        list_all_content [of "\<lambda>p. length p \<le> max_chunk_size cfg" ?cs] by simp
    moreover have "map (\<lambda>c. chunk_index (metadata c)) ?cs = [i..<i + length ?cs]"
      using piece_chunks_index [of cfg sec d i tn ti "length ps" 0 ps] by simp
    ultimately show ?thesis using cs by blast
  qed
qed

lemma basic_sections_props:
  assumes "0 < max_chunk_size cfg"
  shows "\<exists>cs. basic_sections cfg d acc idx secs = Some (acc @ cs) \<and>
              list_all (\<lambda>c. length (content c) \<le> max_chunk_size cfg) cs \<and>
              map (\<lambda>c. chunk_index (metadata c)) cs = [idx..<idx + length cs]"
proof (induction secs arbitrary: acc idx)
  case Nil
  show ?case by simp
next
  case (Cons sec rest)
  from chunk_section_props [OF assms, of sec d idx "tab_title sec" "tab_id sec"]
  obtain sc where sc: "chunk_section cfg sec d idx (tab_title sec) (tab_id sec) = Some sc"
    "list_all (\<lambda>c. length (content c) \<le> max_chunk_size cfg) sc"
    "map (\<lambda>c. chunk_index (metadata c)) sc = [idx..<idx + length sc]" by blast
  from Cons [of "acc @ sc" "idx + length sc"]
  obtain cs where cs: "basic_sections cfg d (acc @ sc) (idx + length sc) rest = Some ((acc @ sc) @ cs)"
    "list_all (\<lambda>c. length (content c) \<le> max_chunk_size cfg) cs"
    "map (\<lambda>c. chunk_index (metadata c)) cs = [idx + length sc..<idx + length sc + length cs]"
    by blast
  have "basic_sections cfg d acc idx (sec # rest) = Some (acc @ (sc @ cs))"
    using sc(1) cs(1) by simp
  moreover have "list_all (\<lambda>c. length (content c) \<le> max_chunk_size cfg) (sc @ cs)"
    using sc(2) cs(2) by simp
  moreover have "map (\<lambda>c. chunk_index (metadata c)) (sc @ cs) = [idx..<idx + length (sc @ cs)]"
  proof -
    have "[idx..<idx + length sc + length cs] =
          [idx..<idx + length sc] @ [idx + length sc..<idx + length sc + length cs]"
      by (rule upt_add_eq_append) simp
    then show ?thesis using sc(3) cs(3) by (simp add: add.assoc)
  qed
  ultimately show ?case by blast
qed

lemma set_total_chunks_props:
  "length (set_total_chunks cs) = length cs"
  "map content (set_total_chunks cs) = map content cs"
  "map summary (set_total_chunks cs) = map summary cs"
  "map (\<lambda>c. chunk_index (metadata c)) (set_total_chunks cs) = map (\<lambda>c. chunk_index (metadata c)) cs"
  by (simp_all add: set_total_chunks_def)

text \<open>
  With \<open>max_chunk_size = 0\<close> the loop of \<open>_split_text_with_overlap\<close> never advances
  \<open>start\<close>: on a non-empty text it does not return.
\<close>

lemma split_text_with_overlap_zero:
  "max_chunk_size cfg = 0 \<Longrightarrow> t \<noteq> [] \<Longrightarrow> split_text_with_overlap cfg t = None"
  by (simp add: split_text_with_overlap_def split_loop_diverges)

subsection \<open>Size bound\<close>

text \<open>
  C6, as the code has it: for every strategy with \<open>max_chunk_size \<ge> 1\<close> and every document,
  BasicChunkingStrategy returns, and the content of every chunk has at most
  \<open>max_chunk_size\<close> characters. There is no exception for a long run without spaces: the
  run is cut at the hard limit.
\<close>

theorem basic_chunk_size_bound:
  assumes "0 < max_chunk_size cfg"
  shows "\<exists>cs. basic_chunk_document cfg doc = Some cs \<and>
              list_all (\<lambda>c. length (content c) \<le> max_chunk_size cfg) cs"
proof -
  from basic_sections_props [OF assms, of "document_id doc" "[]" 0 "sections doc"]
  obtain cs where cs: "basic_sections cfg (document_id doc) [] 0 (sections doc) = Some cs"
    "list_all (\<lambda>c. length (content c) \<le> max_chunk_size cfg) cs" by auto
  have "list_all (\<lambda>c. length (content c) \<le> max_chunk_size cfg) (set_total_chunks cs)"
    using cs(2) by (simp add: set_total_chunks_def list_all_iff)
  with cs(1) show ?thesis by (simp add: basic_chunk_document_def)
qed

theorem basic_chunk_size_bound_witness:
  "0 < max_chunk_size example_strategy \<and>
   (\<exists>cs. basic_chunk_document example_strategy
            (example_document [replicate 25 CHR ''a'', ''Hello world'']) = Some cs \<and>
         list_all (\<lambda>c. length (content c) \<le> max_chunk_size example_strategy) cs)"
  using basic_chunk_size_bound [of example_strategy
      "example_document [replicate 25 CHR ''a'', ''Hello world'']"]
  by (simp add: example_strategy_def)

text \<open>
  C6, as the specification states it, fails: a run of 25 characters without a space, split
  with \<open>max_chunk_size = 10\<close>, gives pieces of 10, 10 and 5 characters, none larger than
  the limit.
\<close>

theorem unspaced_run_is_cut:
  "split_text_with_overlap example_strategy (replicate 25 CHR ''a'') =
     Some [replicate 10 CHR ''a'', replicate 10 CHR ''a'', replicate 5 CHR ''a'']"
  by code_simp

subsection \<open>Coverage\<close>




subsection \<open>Chunk indices\<close>

text \<open>
  C3, as the code has it: for every strategy with \<open>max_chunk_size \<ge> 1\<close> and every document,
  BasicChunkingStrategy returns chunks whose \<open>chunk_index\<close> values are 0, 1, 2, ... in the
  order of the list: unique, and counted by one counter for the document.
\<close>

theorem basic_chunk_index_counter:
  assumes "0 < max_chunk_size cfg"
  shows "\<exists>cs. basic_chunk_document cfg doc = Some cs \<and>
              map (\<lambda>c. chunk_index (metadata c)) cs = [0..<length cs]"
proof -
  from basic_sections_props [OF assms, of "document_id doc" "[]" 0 "sections doc"]
  obtain cs where cs: "basic_sections cfg (document_id doc) [] 0 (sections doc) = Some cs"
    "map (\<lambda>c. chunk_index (metadata c)) cs = [0..<0 + length cs]" by auto
  then show ?thesis by (simp add: basic_chunk_document_def set_total_chunks_props)
qed

theorem basic_chunk_index_counter_witness:
  "0 < max_chunk_size example_strategy \<and>
   (\<exists>cs. basic_chunk_document example_strategy
            (example_document [replicate 25 CHR ''a'', ''Hello world'']) = Some cs \<and>
         map (\<lambda>c. chunk_index (metadata c)) cs = [0..<length cs])"
  using basic_chunk_index_counter [of example_strategy
      "example_document [replicate 25 CHR ''a'', ''Hello world'']"]
  by (simp add: example_strategy_def)

text \<open>
  C3, as the specification states it, fails for SmartChunkingStrategy: for a document of two
  short sections "a" and "b" both chunks get \<open>chunk_index = 0\<close>, where
  BasicChunkingStrategy gives 0 and 1.
\<close>

theorem smart_chunk_index_repeats:
  "map_option (map (\<lambda>c. chunk_index (metadata c)))
     (smart_chunk_document \<lparr>max_chunk_size = 1500, overlap_size = 150, use_summaries = True\<rparr>
        raising_backend submission_order (example_document [''a'', ''b''])) = Some [0, 0] \<and>
   map_option (map (\<lambda>c. chunk_index (metadata c)))
     (basic_chunk_document \<lparr>max_chunk_size = 1500, overlap_size = 150, use_summaries = True\<rparr>
        (example_document [''a'', ''b''])) = Some [0, 1]"
  by code_simp

end
